theory Spec2Isabelle
  imports Complex_Main
begin

section \<open>Python values\<close>

text \<open>
  The scripts compute with Python floats and with the host's \<^verbatim>\<open>mathutils.Vector\<close>.
  Both are modelled over the exact reals: every formula is the one the source writes,
  evaluated without rounding and without overflow. Python integers are \<^typ>\<open>int\<close>.
  An exception is a value of \<^verbatim>\<open>py_error\<close>, and a computation that may raise
  returns a sum with the error on the left.
\<close>

datatype py_error = ZeroDivisionError | ValueError | TypeError | IndexError

definition py_bind :: "py_error + 'a \<Rightarrow> ('a \<Rightarrow> py_error + 'b) \<Rightarrow> py_error + 'b" where
  "py_bind m f = (case m of Inl e \<Rightarrow> Inl e | Inr a \<Rightarrow> f a)"

text \<open>Float division \<^verbatim>\<open>a / b\<close>.\<close>

definition py_div :: "real \<Rightarrow> real \<Rightarrow> py_error + real" where
  "py_div a b = (if b = 0 then Inl ZeroDivisionError else Inr (a / b))"

text \<open>\<^verbatim>\<open>math.acos\<close> and \<^verbatim>\<open>math.log\<close> raise ValueError outside their domains.\<close>

definition py_acos :: "real \<Rightarrow> py_error + real" where
  "py_acos a = (if - 1 \<le> a \<and> a \<le> 1 then Inr (arccos a) else Inl ValueError)"


text \<open>\<^verbatim>\<open>math.atan2(b, a)\<close>: the angle of the point \<open>(a, b)\<close> in \<open>(-pi, pi]\<close>, and 0 at the origin.\<close>

definition py_atan2 :: "real \<Rightarrow> real \<Rightarrow> real" where
  "py_atan2 b a =
     (if 0 < a then arctan (b / a)
      else if a < 0 \<and> 0 \<le> b then arctan (b / a) + pi
      else if a < 0 \<and> b < 0 then arctan (b / a) - pi
      else if 0 < b then pi / 2
      else if b < 0 then - pi / 2
      else 0)"

text \<open>
  Float power \<^verbatim>\<open>a ** b\<close>. A zero base with a negative exponent raises
  ZeroDivisionError; a negative base with a fractional exponent yields a complex number,
  which the arithmetic that follows in the scripts rejects with TypeError.
\<close>

definition py_pow :: "real \<Rightarrow> real \<Rightarrow> py_error + real" where
  "py_pow a b =
     (if 0 < a then Inr (a powr b)
      else if a = 0 then (if b < 0 then Inl ZeroDivisionError else if b = 0 then Inr 1 else Inr 0)
      else if b \<in> \<int> then Inr (a powi \<lfloor>b\<rfloor>)
      else Inl TypeError)"

text \<open>\<^verbatim>\<open>range(n)\<close>: empty when \<open>n \<le> 0\<close>.\<close>

definition py_range :: "int \<Rightarrow> int list" where
  "py_range n = [0..n - 1]"

text \<open>List indexing \<^verbatim>\<open>xs[i]\<close>, negative indices counting from the end.\<close>

definition py_index :: "'a list \<Rightarrow> int \<Rightarrow> py_error + 'a" where
  "py_index xs i =
     (let n = int (length xs);
          k = (if i < 0 then n + i else i)
      in if 0 \<le> k \<and> k < n then Inr (xs ! nat k) else Inl IndexError)"

text \<open>A \<^verbatim>\<open>for\<close> loop whose body may raise: the first exception ends the loop.\<close>

fun py_for :: "'i list \<Rightarrow> ('i \<Rightarrow> 's \<Rightarrow> py_error + 's) \<Rightarrow> 's \<Rightarrow> py_error + 's" where
  "py_for [] body s = Inr s"
| "py_for (i # rest) body s = py_bind (body i s) (py_for rest body)"

section \<open>Vectors\<close>

datatype Vector = Vector (vx: real) (vy: real) (vz: real)

definition vec_add :: "Vector \<Rightarrow> Vector \<Rightarrow> Vector" where
  "vec_add a b = Vector (vx a + vx b) (vy a + vy b) (vz a + vz b)"

definition vec_sub :: "Vector \<Rightarrow> Vector \<Rightarrow> Vector" where
  "vec_sub a b = Vector (vx a - vx b) (vy a - vy b) (vz a - vz b)"

definition vec_scale :: "real \<Rightarrow> Vector \<Rightarrow> Vector" where
  "vec_scale k a = Vector (k * vx a) (k * vy a) (k * vz a)"

text \<open>\<^verbatim>\<open>Vector.length\<close>, and the distance of two points.\<close>

definition vec_length :: "Vector \<Rightarrow> real" where
  "vec_length a = sqrt (vx a * vx a + vy a * vy a + vz a * vz a)"

definition vec_dist :: "Vector \<Rightarrow> Vector \<Rightarrow> real" where
  "vec_dist a b = vec_length (vec_sub a b)"

section \<open>SierpinskiPyramid.py\<close>

subsection \<open>tetrahedron\_vertices\<close>

definition tetrahedron_vertices :: "Vector \<Rightarrow> real \<Rightarrow> Vector list" where
  "tetrahedron_vertices center scale =
     (let h = scale * sqrt (2 / 3);
          r = scale * sqrt 3 / 3;
          v0 = vec_add center (Vector 0 0 h);
          v1 = vec_add center (Vector (r * cos 0) (r * sin 0) 0);
          v2 = vec_add center (Vector (r * cos (2 * pi / 3)) (r * sin (2 * pi / 3)) 0);
          v3 = vec_add center (Vector (r * cos (4 * pi / 3)) (r * sin (4 * pi / 3)) 0)
      in [v0, v1, v2, v3])"

subsection \<open>create\_single\_tetrahedron\<close>

text \<open>
  The object a call of \<^verbatim>\<open>create_single_tetrahedron(center, scale, name)\<close> makes:
  its mesh (four vertices, four triangular faces over vertex positions 0 to 3) and,
  in \<open>obj_center\<close> and \<open>obj_scale\<close>, the arguments it was created with. The name
  \<^verbatim>\<open>Tetra_L{depth}_N{total_count}\<close> is kept as the pair of its two numbers.
\<close>

record tetra_object =
  obj_name :: "int \<times> int"
  obj_center :: Vector
  obj_scale :: real
  obj_verts :: "Vector list"
  obj_faces :: "nat list list"

definition create_single_tetrahedron :: "Vector \<Rightarrow> real \<Rightarrow> int \<times> int \<Rightarrow> tetra_object" where
  "create_single_tetrahedron center scale name =
     (let verts = tetrahedron_vertices center scale
      in \<lparr>obj_name = name, obj_center = center, obj_scale = scale, obj_verts = verts,
          obj_faces = [[0, 1, 2], [0, 2, 3], [0, 3, 1], [1, 3, 2]]\<rparr>)"

subsection \<open>create\_sierpinski\_pyramid\<close>

text \<open>
  The inner function \<^verbatim>\<open>sierpinski_recursive\<close> reads \<^verbatim>\<open>hollow\<close> from the enclosing
  call and updates the enclosing counter \<^verbatim>\<open>total_count\<close>: both are passed explicitly,
  and the counter is returned with the list of objects. The loop over the four vertices
  extends the list by each recursive result in turn.
\<close>

function sierpinski_recursive ::
  "bool \<Rightarrow> Vector \<Rightarrow> real \<Rightarrow> int \<Rightarrow> int \<Rightarrow> int \<Rightarrow> tetra_object list \<times> int" where
  "sierpinski_recursive hollow center scale depth max_depth total_count =
     (if depth \<ge> max_depth then
        ([create_single_tetrahedron center scale (depth, total_count)], total_count + 1)
      else if hollow \<and> depth < max_depth - 1 then
        (let verts = tetrahedron_vertices center scale;
             new_scale = scale / 2
         in fold (\<lambda>vert (objects, cnt).
                    (case sierpinski_recursive hollow vert new_scale (depth + 1) max_depth cnt of
                       (objs, cnt') \<Rightarrow> (objects @ objs, cnt')))
                 verts ([], total_count))
      else
        (let verts = tetrahedron_vertices center scale;
             new_scale = scale / 2
         in fold (\<lambda>vert (objects, cnt).
                    (case sierpinski_recursive hollow vert new_scale (depth + 1) max_depth cnt of
                       (objs, cnt') \<Rightarrow> (objects @ objs, cnt')))
                 verts ([], total_count)))"
  by pat_completeness auto
termination
  by (relation "measure (\<lambda>(hollow, center, scale, depth, max_depth, total_count).
        nat (max_depth - depth))") auto

declare sierpinski_recursive.simps [simp del]

definition create_sierpinski_pyramid :: "Vector \<Rightarrow> real \<Rightarrow> int \<Rightarrow> bool \<Rightarrow> tetra_object list" where
  "create_sierpinski_pyramid base_center size' iterations hollow =
     fst (sierpinski_recursive hollow base_center size' 0 iterations 0)"

subsection \<open>The subdivision rule, as the specification words it\<close>

text \<open>
  A tetrahedron of center \<open>c\<close> and scale \<open>k\<close> is replaced by four tetrahedra of scale
  \<open>k / 2\<close> centered at the four vertices of \<open>tetrahedron_vertices c k\<close>; after \<open>n\<close>
  rounds the leaves are listed with their centers and scales.
\<close>

fun subdivide :: "nat \<Rightarrow> Vector \<Rightarrow> real \<Rightarrow> (Vector \<times> real) list" where
  "subdivide 0 c k = [(c, k)]"
| "subdivide (Suc n) c k = concat (map (\<lambda>v. subdivide n v (k / 2)) (tetrahedron_vertices c k))"

definition leaf_of :: "tetra_object \<Rightarrow> Vector \<times> real" where
  "leaf_of t = (obj_center t, obj_scale t)"

section \<open>Mandelbulb.py\<close>

subsection \<open>mandelbulb\_distance\<close>

text \<open>The variables the loop of \<^verbatim>\<open>mandelbulb_distance\<close> updates: \<^verbatim>\<open>z\<close>, \<^verbatim>\<open>dr\<close>, \<^verbatim>\<open>r\<close>.\<close>

record loop_state =
  st_z :: Vector
  st_dr :: real
  st_r :: real

text \<open>One pass of the loop body ends in \<^verbatim>\<open>break\<close>, in \<^verbatim>\<open>return\<close>, or at its last line.\<close>

datatype step_result = Break loop_state | Return real | Continue loop_state

definition mandelbulb_body :: "Vector \<Rightarrow> real \<Rightarrow> real \<Rightarrow> loop_state \<Rightarrow> py_error + step_result" where
  "mandelbulb_body pos power' bailout st =
     (let z = st_z st; dr = st_dr st;
          r = vec_length z
      in if r > bailout then Inr (Break (st\<lparr>st_r := r\<rparr>))
         else if r < 0.0001 then Inr (Return 0)
         else
           py_bind (py_div (vz z) r) (\<lambda>q.
           py_bind (py_acos (max (- 1) (min 1 q))) (\<lambda>theta.
           let phi = py_atan2 (vy z) (vx z) in
           py_bind (py_pow r power') (\<lambda>zr.
           let theta = theta * power';
               phi = phi * power';
               z = vec_scale zr (Vector (sin theta * cos phi) (sin theta * sin phi) (cos theta));
               z = vec_add z pos
           in
           py_bind (py_pow r (power' - 1)) (\<lambda>p.
           let dr = p * power' * dr + 1
           in Inr (Continue \<lparr>st_z = z, st_dr = dr, st_r = r\<rparr>))))))"

text \<open>
  The loop \<^verbatim>\<open>for i in range(iterations)\<close> over the remaining values of the range.
  It is left by exhausting the range or by \<^verbatim>\<open>break\<close> (the code after the loop runs),
  or by \<^verbatim>\<open>return\<close>.
\<close>

datatype loop_exit = LoopEnded loop_state | Returned real

fun mandelbulb_loop ::
  "Vector \<Rightarrow> real \<Rightarrow> real \<Rightarrow> int list \<Rightarrow> loop_state \<Rightarrow> py_error + loop_exit" where
  "mandelbulb_loop pos power' bailout [] st = Inr (LoopEnded st)"
| "mandelbulb_loop pos power' bailout (i # rest) st =
     (case mandelbulb_body pos power' bailout st of
        Inl e \<Rightarrow> Inl e
      | Inr (Break st') \<Rightarrow> Inr (LoopEnded st')
      | Inr (Return v) \<Rightarrow> Inr (Returned v)
      | Inr (Continue st') \<Rightarrow> mandelbulb_loop pos power' bailout rest st')"

definition mandelbulb_init :: "Vector \<Rightarrow> loop_state" where
  "mandelbulb_init pos = \<lparr>st_z = pos, st_dr = 1, st_r = 0\<rparr>"


subsection \<open>Observing the loop\<close>

text \<open>
  The number of passes of the loop body that a run starts, and the state with which pass
  number \<open>n\<close> (counted from 0) starts, when the run gets that far.
\<close>

fun mandelbulb_passes :: "Vector \<Rightarrow> real \<Rightarrow> real \<Rightarrow> int list \<Rightarrow> loop_state \<Rightarrow> nat" where
  "mandelbulb_passes pos power' bailout [] st = 0"
| "mandelbulb_passes pos power' bailout (i # rest) st =
     Suc (case mandelbulb_body pos power' bailout st of
            Inr (Continue st') \<Rightarrow> mandelbulb_passes pos power' bailout rest st'
          | _ \<Rightarrow> 0)"

fun mandelbulb_state_at ::
  "Vector \<Rightarrow> real \<Rightarrow> real \<Rightarrow> nat \<Rightarrow> loop_state \<Rightarrow> loop_state option" where
  "mandelbulb_state_at pos power' bailout 0 st = Some st"
| "mandelbulb_state_at pos power' bailout (Suc n) st =
     (case mandelbulb_body pos power' bailout st of
        Inr (Continue st') \<Rightarrow> mandelbulb_state_at pos power' bailout n st'
      | _ \<Rightarrow> None)"

section \<open>KleinBottle.py\<close>

subsection \<open>The vertex position of a grid index\<close>

text \<open>
  The body of the two vertex loops of \<^verbatim>\<open>create_klein_bottle_mesh\<close>, for the loop indices
  \<open>i\<close> and \<open>j\<close>. Inside the loops \<open>u_steps\<close> and \<open>v_steps\<close> are positive, so the two
  divisions do not raise.
\<close>

definition klein_vertex :: "int \<Rightarrow> int \<Rightarrow> int \<Rightarrow> int \<Rightarrow> Vector" where
  "klein_vertex u_steps v_steps i j =
     (let u = (real_of_int i / real_of_int u_steps) * 2 * pi;
          v = (real_of_int j / real_of_int v_steps) * 2 * pi;
          r = 4 * (1 - cos u / 2);
          (x, y, z) =
            (if u < pi then
               (6 * cos u * (1 + sin u) + r * cos (v + pi),
                16 * sin u,
                r * sin (v + pi))
             else
               (6 * cos u * (1 + sin u) + r * cos u * cos v,
                16 * sin u,
                r * sin u * sin v));
          scale = 0.08;
          pos = Vector (x * scale) (z * scale) (- y * scale * 0.9);
          pos = Vector (vx pos) (vy pos) (vz pos + 1.2)
      in pos)"

subsection \<open>The mesh under construction\<close>

text \<open>
  The host's \<^verbatim>\<open>bmesh\<close>: its vertices in creation order and its faces, a face being the
  list of its vertices. A vertex is known by its creation number.
\<close>

record BMVert =
  bmv_index :: nat
  bmv_co :: Vector

record bmesh =
  bm_verts :: "BMVert list"
  bm_faces :: "BMVert list list"

definition bmesh_new :: bmesh where
  "bmesh_new = \<lparr>bm_verts = [], bm_faces = []\<rparr>"

definition bm_verts_new :: "bmesh \<Rightarrow> Vector \<Rightarrow> bmesh \<times> BMVert" where
  "bm_verts_new bm pos =
     (let vert = \<lparr>bmv_index = length (bm_verts bm), bmv_co = pos\<rparr>
      in (bm\<lparr>bm_verts := bm_verts bm @ [vert]\<rparr>, vert))"

text \<open>
  \<^verbatim>\<open>bm.faces.new\<close> belongs to the host, not to the repository, so the face loop below
  takes it as a parameter: any operation that either raises, leaving the mesh as it was, or
  returns the changed mesh. \<open>bm_faces_new\<close> is one such operation, after the host's
  documentation: ValueError for fewer than three vertices, for a vertex used twice, and
  for a face that exists already.
\<close>

definition bm_faces_new :: "bmesh \<Rightarrow> BMVert list \<Rightarrow> py_error + bmesh" where
  "bm_faces_new bm vs =
     (if length vs < 3 then Inl ValueError
      else if \<not> distinct (map bmv_index vs) then Inl ValueError
      else if list_ex (\<lambda>f. set (map bmv_index f) = set (map bmv_index vs)) (bm_faces bm)
        then Inl ValueError
      else Inr (bm\<lparr>bm_faces := bm_faces bm @ [vs]\<rparr>))"

subsection \<open>create\_klein\_bottle\_mesh\<close>

definition klein_vertex_row :: "int \<Rightarrow> int \<Rightarrow> int \<Rightarrow> bmesh \<Rightarrow> bmesh \<times> BMVert list" where
  "klein_vertex_row u_steps v_steps i bm =
     fold (\<lambda>j (bm, row).
             (case bm_verts_new bm (klein_vertex u_steps v_steps i j) of
                (bm, vert) \<Rightarrow> (bm, row @ [vert])))
          (py_range v_steps) (bm, [])"

definition klein_vertex_grid :: "int \<Rightarrow> int \<Rightarrow> bmesh \<Rightarrow> bmesh \<times> BMVert list list" where
  "klein_vertex_grid u_steps v_steps bm =
     fold (\<lambda>i (bm, verts).
             (case klein_vertex_row u_steps v_steps i bm of
                (bm, row) \<Rightarrow> (bm, verts @ [row])))
          (py_range u_steps) (bm, [])"

definition grid_get :: "'a list list \<Rightarrow> int \<Rightarrow> int \<Rightarrow> py_error + 'a" where
  "grid_get verts i j = py_bind (py_index verts i) (\<lambda>row. py_index row j)"

text \<open>The statement \<^verbatim>\<open>try: bm.faces.new(quad)  except: pass\<close>.\<close>

definition try_face ::
  "(bmesh \<Rightarrow> BMVert list \<Rightarrow> py_error + bmesh) \<Rightarrow> BMVert list \<Rightarrow> bmesh \<Rightarrow> bmesh" where
  "try_face faces_new quad bm = (case faces_new bm quad of Inl e \<Rightarrow> bm | Inr bm' \<Rightarrow> bm')"

text \<open>The body of the two face loops: four reads of the grid, outside the \<^verbatim>\<open>try\<close>.\<close>

definition klein_face_step ::
  "(bmesh \<Rightarrow> BMVert list \<Rightarrow> py_error + bmesh) \<Rightarrow> BMVert list list \<Rightarrow> int \<Rightarrow> int \<Rightarrow>
   int \<Rightarrow> int \<Rightarrow> bmesh \<Rightarrow> py_error + bmesh" where
  "klein_face_step faces_new verts u_steps v_steps i j bm =
     py_bind (grid_get verts i j) (\<lambda>v1.
     py_bind (grid_get verts ((i + 1) mod u_steps) j) (\<lambda>v2.
     py_bind (grid_get verts ((i + 1) mod u_steps) ((j + 1) mod v_steps)) (\<lambda>v3.
     py_bind (grid_get verts i ((j + 1) mod v_steps)) (\<lambda>v4.
     Inr (try_face faces_new [v1, v2, v3, v4] bm)))))"

definition klein_faces ::
  "(bmesh \<Rightarrow> BMVert list \<Rightarrow> py_error + bmesh) \<Rightarrow> BMVert list list \<Rightarrow> int \<Rightarrow> int \<Rightarrow>
   bmesh \<Rightarrow> py_error + bmesh" where
  "klein_faces faces_new verts u_steps v_steps bm =
     py_for (py_range u_steps)
       (\<lambda>i. py_for (py_range v_steps) (\<lambda>j. klein_face_step faces_new verts u_steps v_steps i j))
       bm"

text \<open>
  The mesh that \<^verbatim>\<open>create_klein_bottle_mesh\<close> hands to the host with \<^verbatim>\<open>bm.to_mesh\<close>;
  the modifiers it adds afterwards do not touch the vertices and faces.
\<close>

definition create_klein_bottle_mesh ::
  "(bmesh \<Rightarrow> BMVert list \<Rightarrow> py_error + bmesh) \<Rightarrow> int \<Rightarrow> int \<Rightarrow> py_error + bmesh" where
  "create_klein_bottle_mesh faces_new u_steps v_steps =
     (case klein_vertex_grid u_steps v_steps bmesh_new of
        (bm, verts) \<Rightarrow> klein_faces faces_new verts u_steps v_steps bm)"

subsection \<open>The candidate quads\<close>

text \<open>The quad of grid cell \<open>(i, j)\<close>, and all of them in loop order.\<close>

definition quad_at :: "BMVert list list \<Rightarrow> int \<Rightarrow> int \<Rightarrow> int \<Rightarrow> int \<Rightarrow> BMVert list" where
  "quad_at verts u_steps v_steps i j =
     [verts ! nat i ! nat j,
      verts ! nat ((i + 1) mod u_steps) ! nat j,
      verts ! nat ((i + 1) mod u_steps) ! nat ((j + 1) mod v_steps),
      verts ! nat i ! nat ((j + 1) mod v_steps)]"

definition candidate_quads :: "BMVert list list \<Rightarrow> int \<Rightarrow> int \<Rightarrow> BMVert list list" where
  "candidate_quads verts u_steps v_steps =
     concat (map (\<lambda>i. map (\<lambda>j. quad_at verts u_steps v_steps i j) (py_range v_steps))
                 (py_range u_steps))"

subsection \<open>The surface and its placement, as the specification words them\<close>


definition grid_angle :: "int \<Rightarrow> int \<Rightarrow> real" where
  "grid_angle k steps = 2 * pi * real_of_int k / real_of_int steps"

definition scale_axes :: "real \<Rightarrow> real \<Rightarrow> real \<Rightarrow> Vector \<Rightarrow> Vector" where
  "scale_axes kx ky kz p = Vector (kx * vx p) (ky * vy p) (kz * vz p)"

definition stand_upright :: "Vector \<Rightarrow> Vector" where
  "stand_upright p = Vector (vx p) (vz p) (- vy p)"

definition shift_up :: "real \<Rightarrow> Vector \<Rightarrow> Vector" where
  "shift_up d p = Vector (vx p) (vy p) (vz p + d)"



text \<open>
  For comparison, the figure-8 immersion of the Klein bottle as the textbooks give it,
  with tube parameter \<open>a\<close>, and its position under the uniform placement.
\<close>

definition textbook_figure8 :: "real \<Rightarrow> real \<Rightarrow> real \<Rightarrow> Vector" where
  "textbook_figure8 a u v =
     Vector ((a + cos (u / 2) * sin v - sin (u / 2) * sin (2 * v)) * cos u)
            ((a + cos (u / 2) * sin v - sin (u / 2) * sin (2 * v)) * sin u)
            (sin (u / 2) * sin v + cos (u / 2) * sin (2 * v))"

definition klein_textbook_position :: "real \<Rightarrow> int \<Rightarrow> int \<Rightarrow> int \<Rightarrow> int \<Rightarrow> Vector" where
  "klein_textbook_position a u_steps v_steps i j =
     shift_up 1.2 (stand_upright (scale_axes 0.08 0.08 0.08
       (textbook_figure8 a (grid_angle i u_steps) (grid_angle j v_steps))))"

section \<open>animations/solarsystemorbitsim.py\<close>

text \<open>
  A planet: its location and rotation, and the keyframes the host holds for it, by frame.
  \<^verbatim>\<open>keyframe_insert\<close> records the current value at the frame, replacing a key already
  there; the rotation keys are those of the z component (\<^verbatim>\<open>index=2\<close>).
\<close>

record planet_object =
  planet_name :: string
  location :: Vector
  rotation_euler :: Vector
  location_keys :: "int \<rightharpoonup> Vector"
  rotation_z_keys :: "int \<rightharpoonup> real"

definition create_planet :: "string \<Rightarrow> real \<Rightarrow> real \<Rightarrow> planet_object" where
  "create_planet name radius orbit_distance =
     \<lparr>planet_name = name, location = Vector orbit_distance 0 0, rotation_euler = Vector 0 0 0,
      location_keys = Map.empty, rotation_z_keys = Map.empty\<rparr>"

text \<open>One pass of the loop of \<^verbatim>\<open>animate_orbit\<close>, and the loop over \<^verbatim>\<open>range(1, frames + 1)\<close>.\<close>

definition animate_orbit_frame ::
  "real \<Rightarrow> real \<Rightarrow> int \<Rightarrow> int \<Rightarrow> planet_object \<Rightarrow> planet_object" where
  "animate_orbit_frame orbit_distance orbit_speed frames frame planet =
     (let angle = (real_of_int frame / real_of_int frames) * orbit_speed * 2 * pi;
          x = cos angle * orbit_distance;
          y = sin angle * orbit_distance;
          planet = planet\<lparr>location := Vector x y 0\<rparr>;
          planet = planet\<lparr>location_keys := (location_keys planet)(frame \<mapsto> location planet)\<rparr>;
          planet = planet\<lparr>rotation_euler :=
                     Vector (vx (rotation_euler planet)) (vy (rotation_euler planet)) angle\<rparr>;
          planet = planet\<lparr>rotation_z_keys :=
                     (rotation_z_keys planet)(frame \<mapsto> vz (rotation_euler planet))\<rparr>
      in planet)"

definition animate_orbit :: "planet_object \<Rightarrow> real \<Rightarrow> real \<Rightarrow> int \<Rightarrow> planet_object" where
  "animate_orbit planet orbit_distance orbit_speed frames =
     fold (animate_orbit_frame orbit_distance orbit_speed frames) [1..frames] planet"

definition orbit_angle :: "real \<Rightarrow> int \<Rightarrow> int \<Rightarrow> real" where
  "orbit_angle orbit_speed frames frame =
     (real_of_int frame / real_of_int frames) * orbit_speed * 2 * pi"


section \<open>The host scene and the start of each script\<close>

subsection \<open>The scene\<close>

text \<open>
  What the scripts read and change in the host before they produce anything: the objects
  of the scene (their type, selection flag, whether they carry animation data, and the
  pose bones of an armature), the materials, the active object, the mode and the frame
  settings. \<open>events\<close> records, in order, every object the host deletes, every piece of
  geometry it creates and every keyframe it inserts.
\<close>

datatype object_type = MESH | CAMERA | LIGHT | ARMATURE | CURVE | EMPTY


datatype host_event = Deleted nat | Created string | Keyframed nat string int

record scene_object =
  ob_id :: nat
  ob_type :: object_type
  ob_selected :: bool
  ob_animated :: bool
  ob_bones :: "string list"

record host =
  data_objects :: "scene_object list"
  data_materials :: "string list"
  active_object :: "nat option"
  context_mode :: string
  scene_fps :: int
  frame_start :: int
  frame_end :: int
  frame_current :: int
  events :: "host_event list"

subsection \<open>The host operations the scripts call\<close>










definition materials_remove_all :: "host \<Rightarrow> host" where
  "materials_remove_all h =
     fold (\<lambda>mat h. h\<lparr>data_materials := remove1 mat (data_materials h)\<rparr>) (data_materials h) h"






subsection \<open>The scripts, from their first statement to their first product\<close>















subsection \<open>What a run records\<close>






section \<open>Facts about the Python values\<close>

lemma length_py_range: "length (py_range n) = nat n"
  by (simp add: py_range_def)

lemma set_py_range: "set (py_range n) = {0..<n}"
  by (auto simp: py_range_def)

lemma nth_py_range: "0 \<le> i \<Longrightarrow> i < n \<Longrightarrow> py_range n ! nat i = i"
  by (simp add: py_range_def nth_upto)

lemma py_range_1: "py_range 1 = [0]"
  by (simp add: py_range_def)

lemma py_range_2: "py_range 2 = [0, 1]"
  by (simp add: py_range_def upto_rec1)

lemma py_index_in_range:
  "0 \<le> i \<Longrightarrow> i < int (length xs) \<Longrightarrow> py_index xs i = Inr (xs ! nat i)"
  by (simp add: py_index_def)

lemma py_for_fold:
  "(\<And>i s. i \<in> set xs \<Longrightarrow> body i s = Inr (g i s)) \<Longrightarrow> py_for xs body s = Inr (fold g xs s)"
proof (induction xs arbitrary: s)
  case Nil
  show ?case by simp
next
  case (Cons i rest)
  have "body i s = Inr (g i s)" using Cons.prems by simp
  moreover have "py_for rest body (g i s) = Inr (fold g rest (g i s))"
    using Cons.prems by (intro Cons.IH) simp
  ultimately show ?case by (simp add: py_bind_def)
qed

lemma fold_concat_rows: "fold f (concat xss) s = fold (fold f) xss s"
  by (induction xss arbitrary: s) simp_all

section \<open>The tetrahedron\<close>

lemma cos_240: "cos (4 * pi / 3) = - 1 / 2"
proof -
  have "4 * pi / 3 = pi / 3 + pi" by simp
  then have "cos (4 * pi / 3) = cos (pi / 3 + pi)" by simp
  also have "\<dots> = - cos (pi / 3)" by (rule cos_periodic_pi)
  finally show ?thesis by (simp add: cos_60)
qed

lemma sin_240: "sin (4 * pi / 3) = - sqrt 3 / 2"
proof -
  have "4 * pi / 3 = pi / 3 + pi" by simp
  then have "sin (4 * pi / 3) = sin (pi / 3 + pi)" by simp
  also have "\<dots> = - sin (pi / 3)" by (rule sin_periodic_pi)
  finally show ?thesis by (simp add: sin_60)
qed

lemma tetrahedron_vertices_explicit:
  "tetrahedron_vertices c s =
     [Vector (vx c) (vy c) (vz c + s * sqrt (2 / 3)),
      Vector (vx c + s * sqrt 3 / 3) (vy c) (vz c),
      Vector (vx c - s * sqrt 3 / 6) (vy c + s / 2) (vz c),
      Vector (vx c - s * sqrt 3 / 6) (vy c - s / 2) (vz c)]"
  by (simp add: tetrahedron_vertices_def Let_def vec_add_def cos_120 sin_120 cos_240 sin_240)

lemma tetrahedron_vertices_four:
  "\<exists>v0 v1 v2 v3. tetrahedron_vertices c s = [v0, v1, v2, v3]"
  by (simp add: tetrahedron_vertices_def Let_def)

lemma sqrt_two_thirds_sq: "sqrt (2 / 3) * sqrt (2 / 3) = (2 / 3 :: real)"
  by simp

lemma height_sq: "(s * sqrt (2 / 3)) * (s * sqrt (2 / 3)) = s * s * (2 / 3)"
proof -
  have "(s * sqrt (2 / 3)) * (s * sqrt (2 / 3)) = s * s * (sqrt (2 / 3) * sqrt (2 / 3))"
    by (simp only: mult_ac)
  then show ?thesis by (simp only: sqrt_two_thirds_sq)
qed

lemma dist_apex_front:
  assumes "0 \<le> s"
  shows "sqrt ((s * sqrt 3 / 3) * (s * sqrt 3 / 3) + (s * sqrt (2 / 3)) * (s * sqrt (2 / 3))) = s"
proof -
  have a: "(s * sqrt 3 / 3) * (s * sqrt 3 / 3) = s * s / 3"
    by (simp add: field_simps)
  have "(s * sqrt 3 / 3) * (s * sqrt 3 / 3) + (s * sqrt (2 / 3)) * (s * sqrt (2 / 3)) = s * s"
    unfolding a height_sq by (simp add: field_simps)
  then show ?thesis using assms by simp
qed

lemma dist_apex_back:
  assumes "0 \<le> s"
  shows "sqrt ((s * sqrt 3 / 6) * (s * sqrt 3 / 6) + (s / 2) * (s / 2)
               + (s * sqrt (2 / 3)) * (s * sqrt (2 / 3))) = s"
proof -
  have a: "(s * sqrt 3 / 6) * (s * sqrt 3 / 6) = s * s / 12"
    by (simp add: field_simps)
  have "(s * sqrt 3 / 6) * (s * sqrt 3 / 6) + (s / 2) * (s / 2)
          + (s * sqrt (2 / 3)) * (s * sqrt (2 / 3)) = s * s"
    unfolding a height_sq by (simp add: field_simps)
  then show ?thesis using assms by simp
qed

lemma dist_base_front:
  assumes "0 \<le> s"
  shows "sqrt ((s * sqrt 3 / 3 + s * sqrt 3 / 6) * (s * sqrt 3 / 3 + s * sqrt 3 / 6)
               + (s / 2) * (s / 2)) = s"
proof -
  have "s * sqrt 3 / 3 + s * sqrt 3 / 6 = s * sqrt 3 / 2"
    by (simp add: field_simps)
  then have "(s * sqrt 3 / 3 + s * sqrt 3 / 6) * (s * sqrt 3 / 3 + s * sqrt 3 / 6)
               = (s * sqrt 3 / 2) * (s * sqrt 3 / 2)"
    by simp
  also have "\<dots> = s * s * 3 / 4" by (simp add: field_simps)
  finally have "(s * sqrt 3 / 3 + s * sqrt 3 / 6) * (s * sqrt 3 / 3 + s * sqrt 3 / 6)
                  + (s / 2) * (s / 2) = s * s"
    by (simp add: field_simps)
  then show ?thesis using assms by simp
qed

text \<open>
  C10. For every center \<open>c\<close> and every scale \<open>s > 0\<close>, the four points of
  \<open>tetrahedron_vertices c s\<close> form a regular tetrahedron of edge length \<open>s\<close>: all six
  pairwise distances are \<open>s\<close>, the three base vertices lie in the horizontal plane
  through \<open>c\<close>, and the apex lies straight above \<open>c\<close> at height \<open>s * sqrt (2 / 3)\<close>.
\<close>

theorem tetrahedron_vertices_regular:
  assumes "0 < s"
  shows "\<exists>v0 v1 v2 v3.
           tetrahedron_vertices c s = [v0, v1, v2, v3]
         \<and> vec_dist v0 v1 = s \<and> vec_dist v0 v2 = s \<and> vec_dist v0 v3 = s
         \<and> vec_dist v1 v2 = s \<and> vec_dist v1 v3 = s \<and> vec_dist v2 v3 = s
         \<and> vz v1 = vz c \<and> vz v2 = vz c \<and> vz v3 = vz c
         \<and> vx v0 = vx c \<and> vy v0 = vy c \<and> vz v0 = vz c + s * sqrt (2 / 3)"
proof -
  have s: "0 \<le> s" using assms by simp
  let ?v0 = "Vector (vx c) (vy c) (vz c + s * sqrt (2 / 3))"
  let ?v1 = "Vector (vx c + s * sqrt 3 / 3) (vy c) (vz c)"
  let ?v2 = "Vector (vx c - s * sqrt 3 / 6) (vy c + s / 2) (vz c)"
  let ?v3 = "Vector (vx c - s * sqrt 3 / 6) (vy c - s / 2) (vz c)"
  have e: "tetrahedron_vertices c s = [?v0, ?v1, ?v2, ?v3]"
    by (rule tetrahedron_vertices_explicit)
  have d01: "vec_dist ?v0 ?v1 = s"
    using dist_apex_front [OF s] by (simp add: vec_dist_def vec_length_def vec_sub_def add.commute)
  have d02: "vec_dist ?v0 ?v2 = s"
    using dist_apex_back [OF s] by (simp add: vec_dist_def vec_length_def vec_sub_def)
  have d03: "vec_dist ?v0 ?v3 = s"
    using dist_apex_back [OF s] by (simp add: vec_dist_def vec_length_def vec_sub_def)
  have d12: "vec_dist ?v1 ?v2 = s"
    using dist_base_front [OF s] by (simp add: vec_dist_def vec_length_def vec_sub_def)
  have d13: "vec_dist ?v1 ?v3 = s"
    using dist_base_front [OF s] by (simp add: vec_dist_def vec_length_def vec_sub_def)
  have d23: "vec_dist ?v2 ?v3 = s"
    using s by (simp add: vec_dist_def vec_length_def vec_sub_def)
  show ?thesis
    using e d01 d02 d03 d12 d13 d23 by simp
qed

theorem tetrahedron_vertices_regular_witness:
  "0 < (2::real)
   \<and> vec_dist (tetrahedron_vertices (Vector 0 0 0) 2 ! 0) (tetrahedron_vertices (Vector 0 0 0) 2 ! 1) = 2
   \<and> vec_dist (tetrahedron_vertices (Vector 0 0 0) 2 ! 1) (tetrahedron_vertices (Vector 0 0 0) 2 ! 2) = 2
   \<and> vec_dist (tetrahedron_vertices (Vector 0 0 0) 2 ! 2) (tetrahedron_vertices (Vector 0 0 0) 2 ! 3) = 2
   \<and> vz (tetrahedron_vertices (Vector 0 0 0) 2 ! 0) = 2 * sqrt (2 / 3)"
proof -
  have h: "0 < (2::real)" by simp
  obtain v0 v1 v2 v3 where
    "tetrahedron_vertices (Vector 0 0 0) 2 = [v0, v1, v2, v3]"
    "vec_dist v0 v1 = 2" "vec_dist v1 v2 = 2" "vec_dist v2 v3 = 2"
    "vz v0 = vz (Vector 0 0 0) + 2 * sqrt (2 / 3)"
    using tetrahedron_vertices_regular [OF h, of "Vector 0 0 0"] by blast
  then show ?thesis by simp
qed

section \<open>The Sierpinski recursion\<close>

lemma sierpinski_recursive_leaf:
  "max_depth \<le> depth \<Longrightarrow>
   sierpinski_recursive hollow center scale depth max_depth total_count =
     ([create_single_tetrahedron center scale (depth, total_count)], total_count + 1)"
  by (subst sierpinski_recursive.simps) simp

lemma sierpinski_recursive_node:
  "depth < max_depth \<Longrightarrow>
   sierpinski_recursive hollow center scale depth max_depth total_count =
     fold (\<lambda>vert (objects, cnt).
             (case sierpinski_recursive hollow vert (scale / 2) (depth + 1) max_depth cnt of
                (objs, cnt') \<Rightarrow> (objects @ objs, cnt')))
          (tetrahedron_vertices center scale) ([], total_count)"
  by (subst sierpinski_recursive.simps) (simp add: Let_def)

lemma length_subdivide: "length (subdivide n c k) = 4 ^ n"
proof (induction n arbitrary: c k)
  case 0
  show ?case by simp
next
  case (Suc n)
  obtain v0 v1 v2 v3 where v: "tetrahedron_vertices c k = [v0, v1, v2, v3]"
    using tetrahedron_vertices_four by blast
  show ?case by (simp add: v Suc.IH)
qed

lemma scale_subdivide: "p \<in> set (subdivide n c k) \<Longrightarrow> snd p = k / 2 ^ n"
proof (induction n arbitrary: c k)
  case 0
  then show ?case by simp
next
  case (Suc n)
  then obtain v where "p \<in> set (subdivide n v (k / 2))"
    by auto
  then have "snd p = (k / 2) / 2 ^ n" by (rule Suc.IH)
  then show ?case by simp
qed

lemma sierpinski_recursive_subdivide:
  "max_depth - depth = int n \<Longrightarrow>
   \<exists>objs. sierpinski_recursive hollow c s depth max_depth cnt = (objs, cnt + 4 ^ n)
        \<and> map leaf_of objs = subdivide n c s"
proof (induction n arbitrary: c s depth cnt)
  case 0
  then have "max_depth \<le> depth" by simp
  then show ?case
    by (simp add: sierpinski_recursive_leaf create_single_tetrahedron_def leaf_of_def Let_def)
next
  case (Suc n)
  then have lt: "depth < max_depth" and d: "max_depth - (depth + 1) = int n" by simp_all
  obtain v0 v1 v2 v3 where v: "tetrahedron_vertices c s = [v0, v1, v2, v3]"
    using tetrahedron_vertices_four by blast
  define c1 where "c1 = cnt + 4 ^ n"
  define c2 where "c2 = c1 + 4 ^ n"
  define c3 where "c3 = c2 + 4 ^ n"
  define c4 where "c4 = c3 + 4 ^ n"
  obtain o0 where o0: "sierpinski_recursive hollow v0 (s / 2) (depth + 1) max_depth cnt = (o0, c1)"
      "map leaf_of o0 = subdivide n v0 (s / 2)"
    unfolding c1_def using Suc.IH [OF d] by blast
  obtain o1 where o1: "sierpinski_recursive hollow v1 (s / 2) (depth + 1) max_depth c1 = (o1, c2)"
      "map leaf_of o1 = subdivide n v1 (s / 2)"
    unfolding c2_def using Suc.IH [OF d] by blast
  obtain o2 where o2: "sierpinski_recursive hollow v2 (s / 2) (depth + 1) max_depth c2 = (o2, c3)"
      "map leaf_of o2 = subdivide n v2 (s / 2)"
    unfolding c3_def using Suc.IH [OF d] by blast
  obtain o3 where o3: "sierpinski_recursive hollow v3 (s / 2) (depth + 1) max_depth c3 = (o3, c4)"
      "map leaf_of o3 = subdivide n v3 (s / 2)"
    unfolding c4_def using Suc.IH [OF d] by blast
  have "sierpinski_recursive hollow c s depth max_depth cnt = (o0 @ o1 @ o2 @ o3, c4)"
    by (simp add: sierpinski_recursive_node [OF lt] v o0 o1 o2 o3)
  moreover have "c4 = cnt + 4 ^ Suc n"
    by (simp add: c1_def c2_def c3_def c4_def)
  moreover have "map leaf_of (o0 @ o1 @ o2 @ o3) = subdivide (Suc n) c s"
    by (simp add: v o0 o1 o2 o3)
  ultimately show ?case by simp
qed

lemma sierpinski_recursive_hollow_irrelevant:
  "sierpinski_recursive True c s depth max_depth cnt
     = sierpinski_recursive False c s depth max_depth cnt"
proof (induction "nat (max_depth - depth)" arbitrary: c s depth cnt)
  case 0
  then have "max_depth \<le> depth" by simp
  then show ?case by (simp add: sierpinski_recursive_leaf)
next
  case (Suc n)
  then have lt: "depth < max_depth" and d: "n = nat (max_depth - (depth + 1))" by linarith+
  have "sierpinski_recursive True v k (depth + 1) max_depth i
          = sierpinski_recursive False v k (depth + 1) max_depth i" for v k i
    using Suc.hyps(1) [OF d] .
  then show ?case
    by (simp add: sierpinski_recursive_node [OF lt])
qed

text \<open>
  C1. For every recursion depth \<open>iterations \<ge> 0\<close> and every base size \<open>s > 0\<close>,
  \<open>create_sierpinski_pyramid\<close> makes exactly \<open>4 ^ iterations\<close> leaf tetrahedra, each
  created with scale \<open>s / 2 ^ iterations\<close>, and their centers and scales are, in order,
  those of the subdivision rule that replaces a tetrahedron of center \<open>c\<close> and scale \<open>k\<close>
  by four of scale \<open>k / 2\<close> at the vertices of \<open>tetrahedron_vertices c k\<close>.
\<close>

theorem create_sierpinski_pyramid_leaves:
  assumes "0 \<le> iterations" and "0 < s"
  shows "length (create_sierpinski_pyramid c s iterations hollow) = 4 ^ nat iterations
       \<and> (\<forall>t \<in> set (create_sierpinski_pyramid c s iterations hollow).
            obj_scale t = s / 2 ^ nat iterations)
       \<and> map leaf_of (create_sierpinski_pyramid c s iterations hollow)
           = subdivide (nat iterations) c s"
proof -
  have "iterations - 0 = int (nat iterations)" using assms(1) by simp
  then obtain objs where
    r: "sierpinski_recursive hollow c s 0 iterations 0 = (objs, 0 + 4 ^ nat iterations)"
    and m: "map leaf_of objs = subdivide (nat iterations) c s"
    using sierpinski_recursive_subdivide by blast
  have e: "create_sierpinski_pyramid c s iterations hollow = objs"
    by (simp add: create_sierpinski_pyramid_def r)
  have "length objs = length (map leaf_of objs)" by simp
  then have l: "length objs = 4 ^ nat iterations"
    by (simp only: m length_subdivide)
  have sc: "obj_scale t = s / 2 ^ nat iterations" if "t \<in> set objs" for t
  proof -
    have "leaf_of t \<in> set (map leaf_of objs)" using that by simp
    then have "snd (leaf_of t) = s / 2 ^ nat iterations"
      unfolding m by (rule scale_subdivide)
    then show ?thesis by (simp add: leaf_of_def)
  qed
  show ?thesis using e l sc m by simp
qed

theorem create_sierpinski_pyramid_leaves_witness:
  "(0::int) \<le> 1 \<and> (0::real) < 4
   \<and> length (create_sierpinski_pyramid (Vector 0 0 0) 4 1 False) = 4
   \<and> map obj_scale (create_sierpinski_pyramid (Vector 0 0 0) 4 1 False) = [2, 2, 2, 2]
   \<and> map obj_center (create_sierpinski_pyramid (Vector 0 0 0) 4 1 False)
       = tetrahedron_vertices (Vector 0 0 0) 4"
proof -
  have i: "(0::int) \<le> 1" and s: "(0::real) < 4" by simp_all
  let ?objs = "create_sierpinski_pyramid (Vector 0 0 0) 4 1 False"
  have l: "length ?objs = 4 ^ nat 1"
    and m: "map leaf_of ?objs = subdivide (nat 1) (Vector 0 0 0) 4"
    using create_sierpinski_pyramid_leaves [OF i s, of "Vector 0 0 0" False] by blast+
  obtain v0 v1 v2 v3 where v: "tetrahedron_vertices (Vector 0 0 0) 4 = [v0, v1, v2, v3]"
    using tetrahedron_vertices_four by blast
  have n: "nat 1 = Suc 0" by simp
  have m': "map leaf_of ?objs = [(v0, 2), (v1, 2), (v2, 2), (v3, 2)]"
    unfolding m n by (simp add: v)
  have "map obj_scale ?objs = map snd (map leaf_of ?objs)"
    by (simp add: leaf_of_def comp_def)
  then have sc: "map obj_scale ?objs = [2, 2, 2, 2]"
    by (simp only: m') simp
  have "map obj_center ?objs = map fst (map leaf_of ?objs)"
    by (simp add: leaf_of_def comp_def)
  then have ce: "map obj_center ?objs = [v0, v1, v2, v3]"
    by (simp only: m') simp
  show ?thesis using l sc ce v by simp
qed

text \<open>
  C9. For every base center, size and iterations, \<open>create_sierpinski_pyramid\<close> returns
  the same tetrahedra, in the same order, with \<open>hollow = True\<close> as with
  \<open>hollow = False\<close>: the hollow branch performs the same recursion.
\<close>

theorem create_sierpinski_pyramid_hollow_same:
  "create_sierpinski_pyramid base_center size' iterations True
     = create_sierpinski_pyramid base_center size' iterations False"
  by (simp add: create_sierpinski_pyramid_def sierpinski_recursive_hollow_irrelevant)


section \<open>The Mandelbulb loop\<close>

lemma mandelbulb_body_cases:
  "(vec_length (st_z st) > bailout \<and>
      mandelbulb_body pos power' bailout st = Inr (Break (st\<lparr>st_r := vec_length (st_z st)\<rparr>)))
   \<or> (\<not> vec_length (st_z st) > bailout \<and> vec_length (st_z st) < 0.0001 \<and>
      mandelbulb_body pos power' bailout st = Inr (Return 0))
   \<or> (\<not> vec_length (st_z st) > bailout \<and> \<not> vec_length (st_z st) < 0.0001 \<and>
      (\<exists>st'. mandelbulb_body pos power' bailout st = Inr (Continue st')))"
proof -
  let ?r = "vec_length (st_z st)"
  consider "?r > bailout" | "\<not> ?r > bailout" "?r < 0.0001" | "\<not> ?r > bailout" "\<not> ?r < 0.0001"
    by blast
  then show ?thesis
  proof cases
    case 1
    then show ?thesis by (simp add: mandelbulb_body_def Let_def)
  next
    case 2
    then show ?thesis by (simp add: mandelbulb_body_def Let_def)
  next
    case 3
    then have pos: "0 < ?r" by simp
    have d: "py_div (vz (st_z st)) ?r = Inr (vz (st_z st) / ?r)"
      using pos by (simp add: py_div_def)
    have a: "py_acos (max (- 1) (min 1 q)) = Inr (arccos (max (- 1) (min 1 q)))" for q :: real
      by (simp add: py_acos_def)
    have p: "py_pow ?r b = Inr (?r powr b)" for b
      using pos by (simp add: py_pow_def)
    show ?thesis
      using 3 by (simp add: mandelbulb_body_def Let_def py_bind_def d a p)
  qed
qed

lemma mandelbulb_body_total:
  "\<exists>res. mandelbulb_body pos power' bailout st = Inr res"
  using mandelbulb_body_cases [where st = st and bailout = bailout and pos = pos and power' = power']
  by auto


lemma mandelbulb_loop_total:
  "\<exists>ex. mandelbulb_loop pos power' bailout rng st = Inr ex"
proof (induction rng arbitrary: st)
  case Nil
  show ?case by simp
next
  case (Cons i rest)
  obtain res where res: "mandelbulb_body pos power' bailout st = Inr res"
    using mandelbulb_body_total by blast
  show ?case
  proof (cases res)
    case (Break st')
    then show ?thesis by (simp add: res)
  next
    case (Return v)
    then show ?thesis by (simp add: res)
  next
    case (Continue st')
    then show ?thesis using Cons.IH [of st'] by (simp add: res)
  qed
qed


lemma mandelbulb_passes_le:
  "mandelbulb_passes pos power' bailout rng st \<le> length rng"
proof (induction rng arbitrary: st)
  case Nil
  show ?case by simp
next
  case (Cons i rest)
  show ?case
  proof (cases "mandelbulb_body pos power' bailout st")
    case (Inl e)
    then show ?thesis by simp
  next
    case (Inr res)
    then show ?thesis using Cons.IH by (cases res) (simp_all add: Inr)
  qed
qed

lemma mandelbulb_escape:
  "n < length rng \<Longrightarrow> mandelbulb_state_at pos power' bailout n st = Some st' \<Longrightarrow>
   vec_length (st_z st') > bailout \<Longrightarrow>
   mandelbulb_passes pos power' bailout rng st = Suc n \<and>
   mandelbulb_loop pos power' bailout rng st
     = Inr (LoopEnded (st'\<lparr>st_r := vec_length (st_z st')\<rparr>))"
proof (induction n arbitrary: rng st)
  case 0
  then obtain i rest where rng: "rng = i # rest" by (cases rng) auto
  from 0 have st: "st' = st" by simp
  have "mandelbulb_body pos power' bailout st = Inr (Break (st\<lparr>st_r := vec_length (st_z st)\<rparr>))"
    using 0(3)
      mandelbulb_body_cases [where st = st and bailout = bailout and pos = pos and power' = power']
    by (auto simp: st)
  then show ?case by (simp add: rng st)
next
  case (Suc n)
  then obtain i rest where rng: "rng = i # rest" by (cases rng) auto
  from Suc.prems(2) obtain st1 where
    b: "mandelbulb_body pos power' bailout st = Inr (Continue st1)"
    and s: "mandelbulb_state_at pos power' bailout n st1 = Some st'"
    by (auto split: sum.splits step_result.splits)
  have "n < length rest" using Suc.prems(1) rng by simp
  from Suc.IH [OF this s Suc.prems(3)] show ?case by (simp add: rng b)
qed

lemma vec_length_3: "vec_length (Vector 3 0 0) = 3"
  by (simp add: vec_length_def)

text \<open>
  C4. For every position and every iterations parameter \<open>k \<ge> 0\<close>, the loop of
  \<open>mandelbulb_distance\<close> ends after at most \<open>k\<close> passes, and it is left at the first pass whose
  radius \<open>r = |z|\<close> exceeds the bailout: if pass number \<open>n\<close> starts with such a \<open>z\<close>, the
  run makes exactly \<open>n + 1\<close> passes and leaves the loop with that radius in \<open>r\<close>.
\<close>

theorem mandelbulb_loop_bounded:
  assumes "0 \<le> k"
  shows "(\<exists>ex. mandelbulb_loop pos power' bailout (py_range k) (mandelbulb_init pos) = Inr ex)
       \<and> mandelbulb_passes pos power' bailout (py_range k) (mandelbulb_init pos) \<le> nat k
       \<and> (\<forall>n st. n < nat k
              \<and> mandelbulb_state_at pos power' bailout n (mandelbulb_init pos) = Some st
              \<and> vec_length (st_z st) > bailout
            \<longrightarrow> mandelbulb_passes pos power' bailout (py_range k) (mandelbulb_init pos) = Suc n
              \<and> mandelbulb_loop pos power' bailout (py_range k) (mandelbulb_init pos)
                  = Inr (LoopEnded (st\<lparr>st_r := vec_length (st_z st)\<rparr>)))"
proof -
  have "mandelbulb_passes pos power' bailout (py_range k) (mandelbulb_init pos)
          \<le> length (py_range k)"
    by (rule mandelbulb_passes_le)
  then have a: "mandelbulb_passes pos power' bailout (py_range k) (mandelbulb_init pos) \<le> nat k"
    by (simp only: length_py_range)
  have b: "mandelbulb_passes pos power' bailout (py_range k) (mandelbulb_init pos) = Suc n
         \<and> mandelbulb_loop pos power' bailout (py_range k) (mandelbulb_init pos)
             = Inr (LoopEnded (st\<lparr>st_r := vec_length (st_z st)\<rparr>))"
    if "n < nat k" "mandelbulb_state_at pos power' bailout n (mandelbulb_init pos) = Some st"
       "vec_length (st_z st) > bailout" for n st
  proof -
    have "n < length (py_range k)" using that(1) by (simp only: length_py_range)
    then show ?thesis using that(2,3) by (rule mandelbulb_escape)
  qed
  show ?thesis using a b mandelbulb_loop_total by blast
qed

theorem mandelbulb_loop_bounded_witness:
  "(0::int) \<le> 5
   \<and> mandelbulb_passes (Vector 3 0 0) 8 2 (py_range 5) (mandelbulb_init (Vector 3 0 0)) = 1
   \<and> mandelbulb_loop (Vector 3 0 0) 8 2 (py_range 5) (mandelbulb_init (Vector 3 0 0))
       = Inr (LoopEnded \<lparr>st_z = Vector 3 0 0, st_dr = 1, st_r = 3\<rparr>)"
proof -
  have k: "(0::int) \<le> 5" by simp
  have "(0::nat) < nat 5
      \<and> mandelbulb_state_at (Vector 3 0 0) 8 2 0 (mandelbulb_init (Vector 3 0 0))
          = Some (mandelbulb_init (Vector 3 0 0))
      \<and> vec_length (st_z (mandelbulb_init (Vector 3 0 0))) > 2"
    by (simp add: mandelbulb_init_def vec_length_3)
  with mandelbulb_loop_bounded [OF k, of "Vector 3 0 0" 8 2]
  have "mandelbulb_passes (Vector 3 0 0) 8 2 (py_range 5) (mandelbulb_init (Vector 3 0 0)) = Suc 0
      \<and> mandelbulb_loop (Vector 3 0 0) 8 2 (py_range 5) (mandelbulb_init (Vector 3 0 0))
          = Inr (LoopEnded ((mandelbulb_init (Vector 3 0 0))
               \<lparr>st_r := vec_length (st_z (mandelbulb_init (Vector 3 0 0)))\<rparr>))"
    by blast
  then show ?thesis
    by (simp add: mandelbulb_init_def vec_length_3)
qed






section \<open>The Klein bottle mesh\<close>

lemma klein_row_fold:
  "fold (\<lambda>j (bm, row).
           (case bm_verts_new bm (klein_vertex u_steps v_steps i j) of
              (bm, vert) \<Rightarrow> (bm, row @ [vert]))) js (bm, row) = (bm', row') \<Longrightarrow>
   map bmv_co row' = map bmv_co row @ map (klein_vertex u_steps v_steps i) js"
proof (induction js arbitrary: bm row)
  case Nil
  then show ?case by simp
next
  case (Cons j js)
  show ?case
    using Cons.prems Cons.IH
    by (simp add: bm_verts_new_def Let_def)
qed

lemma klein_vertex_row_co:
  "klein_vertex_row u_steps v_steps i bm = (bm', row) \<Longrightarrow>
   map bmv_co row = map (klein_vertex u_steps v_steps i) (py_range v_steps)"
  unfolding klein_vertex_row_def by (drule klein_row_fold) simp

lemma klein_grid_fold:
  "fold (\<lambda>i (bm, verts).
           (case klein_vertex_row u_steps v_steps i bm of
              (bm, row) \<Rightarrow> (bm, verts @ [row]))) is (bm, verts) = (bm', verts') \<Longrightarrow>
   map (map bmv_co) verts'
     = map (map bmv_co) verts
       @ map (\<lambda>i. map (klein_vertex u_steps v_steps i) (py_range v_steps)) is"
proof (induction "is" arbitrary: bm verts)
  case Nil
  then show ?case by simp
next
  case (Cons i rest)
  obtain bm1 row where r: "klein_vertex_row u_steps v_steps i bm = (bm1, row)"
    by (cases "klein_vertex_row u_steps v_steps i bm")
  have "map bmv_co row = map (klein_vertex u_steps v_steps i) (py_range v_steps)"
    using r by (rule klein_vertex_row_co)
  moreover have "map (map bmv_co) verts'
     = map (map bmv_co) (verts @ [row])
       @ map (\<lambda>i. map (klein_vertex u_steps v_steps i) (py_range v_steps)) rest"
    using Cons.prems by (intro Cons.IH [of bm1 "verts @ [row]"]) (simp add: r)
  ultimately show ?case by simp
qed

lemma klein_vertex_grid_co:
  "klein_vertex_grid u_steps v_steps bm = (bm', verts) \<Longrightarrow>
   map (map bmv_co) verts
     = map (\<lambda>i. map (klein_vertex u_steps v_steps i) (py_range v_steps)) (py_range u_steps)"
  unfolding klein_vertex_grid_def by (drule klein_grid_fold) simp

lemma klein_vertex_grid_shape:
  assumes "klein_vertex_grid u_steps v_steps bm = (bm', verts)"
  shows "length verts = nat u_steps"
    and "0 \<le> i \<Longrightarrow> i < u_steps \<Longrightarrow> length (verts ! nat i) = nat v_steps"
    and "0 \<le> i \<Longrightarrow> i < u_steps \<Longrightarrow> 0 \<le> j \<Longrightarrow> j < v_steps \<Longrightarrow>
         bmv_co (verts ! nat i ! nat j) = klein_vertex u_steps v_steps i j"
proof -
  let ?G = "map (\<lambda>i. map (klein_vertex u_steps v_steps i) (py_range v_steps)) (py_range u_steps)"
  have m: "map (map bmv_co) verts = ?G"
    using assms by (rule klein_vertex_grid_co)
  have "length (map (map bmv_co) verts) = length ?G" by (simp only: m)
  then show l: "length verts = nat u_steps" by (simp add: length_py_range)
  {
    assume i: "0 \<le> i" "i < u_steps"
    then have n: "nat i < length verts" using l by simp
    have "map (map bmv_co) verts ! nat i = ?G ! nat i" by (simp only: m)
    then have row: "map bmv_co (verts ! nat i)
                 = map (klein_vertex u_steps v_steps i) (py_range v_steps)"
      using n i l by (simp add: length_py_range nth_py_range)
    have "length (map bmv_co (verts ! nat i)) = length (py_range v_steps)"
      by (simp only: row length_map)
    then show lr: "length (verts ! nat i) = nat v_steps" by (simp add: length_py_range)
    assume j: "0 \<le> j" "j < v_steps"
    then have nj: "nat j < length (verts ! nat i)" using lr by simp
    have "map bmv_co (verts ! nat i) ! nat j
            = map (klein_vertex u_steps v_steps i) (py_range v_steps) ! nat j"
      by (simp only: row)
    then show "bmv_co (verts ! nat i ! nat j) = klein_vertex u_steps v_steps i j"
      using nj j lr by (simp add: length_py_range nth_py_range)
  }
qed




text \<open>
  The same grid index separates the script from the textbook immersion, whatever its
  tube parameter: there the first coordinate is 0, in the script it is - 0.32.
\<close>

lemma klein_vertex_not_textbook:
  "vx (klein_vertex 4 4 1 0) = - 0.32 \<and> (\<forall>a. vx (klein_textbook_position a 4 4 1 0) = 0)"
proof -
  have "klein_vertex 4 4 1 0 = Vector (- 0.32) 0 0.048"
    by (simp add: klein_vertex_def Let_def)
  moreover have "vx (klein_textbook_position a 4 4 1 0) = 0" for a
    by (simp add: klein_textbook_position_def grid_angle_def textbook_figure8_def
        scale_axes_def stand_upright_def shift_up_def)
  ultimately show ?thesis by simp
qed



lemma grid_get_in_range:
  assumes "length verts = nat u_steps"
    and "\<forall>i. 0 \<le> i \<and> i < u_steps \<longrightarrow> length (verts ! nat i) = nat v_steps"
    and "0 \<le> i" "i < u_steps" "0 \<le> j" "j < v_steps"
  shows "grid_get verts i j = Inr (verts ! nat i ! nat j)"
proof -
  have "py_index verts i = Inr (verts ! nat i)"
    using assms(1,3,4) by (intro py_index_in_range) simp_all
  moreover have "length (verts ! nat i) = nat v_steps"
    using assms(2,3,4) by blast
  then have "py_index (verts ! nat i) j = Inr (verts ! nat i ! nat j)"
    using assms(5,6) by (intro py_index_in_range) simp_all
  ultimately show ?thesis by (simp add: grid_get_def py_bind_def)
qed

lemma klein_face_step_in_range:
  assumes "length verts = nat u_steps"
    and "\<forall>i. 0 \<le> i \<and> i < u_steps \<longrightarrow> length (verts ! nat i) = nat v_steps"
    and "0 \<le> i" "i < u_steps" "0 \<le> j" "j < v_steps"
  shows "klein_face_step faces_new verts u_steps v_steps i j bm
           = Inr (try_face faces_new (quad_at verts u_steps v_steps i j) bm)"
proof -
  have u: "0 < u_steps" and v: "0 < v_steps" using assms(3-6) by linarith+
  have i1: "0 \<le> (i + 1) mod u_steps" "(i + 1) mod u_steps < u_steps"
    using u by simp_all
  have j1: "0 \<le> (j + 1) mod v_steps" "(j + 1) mod v_steps < v_steps"
    using v by simp_all
  note g = grid_get_in_range [OF assms(1,2)]
  show ?thesis
    by (simp add: klein_face_step_def py_bind_def quad_at_def
        g [OF assms(3,4) assms(5,6)] g [OF i1 assms(5,6)] g [OF i1 j1] g [OF assms(3,4) j1])
qed

lemma klein_faces_fold:
  assumes "length verts = nat u_steps"
    and "\<forall>i. 0 \<le> i \<and> i < u_steps \<longrightarrow> length (verts ! nat i) = nat v_steps"
  shows "klein_faces faces_new verts u_steps v_steps bm
           = Inr (fold (try_face faces_new) (candidate_quads verts u_steps v_steps) bm)"
proof -
  let ?q = "quad_at verts u_steps v_steps"
  have inner: "py_for (py_range v_steps) (\<lambda>j. klein_face_step faces_new verts u_steps v_steps i j) s
                 = Inr (fold (\<lambda>j. try_face faces_new (?q i j)) (py_range v_steps) s)"
    if "i \<in> set (py_range u_steps)" for i s
  proof (rule py_for_fold)
    fix j s' assume "j \<in> set (py_range v_steps)"
    then have "0 \<le> j" "j < v_steps" by (simp_all add: set_py_range)
    moreover have "0 \<le> i" "i < u_steps" using that by (simp_all add: set_py_range)
    ultimately show "klein_face_step faces_new verts u_steps v_steps i j s'
                       = Inr (try_face faces_new (?q i j) s')"
      using klein_face_step_in_range [OF assms] by blast
  qed
  have "klein_faces faces_new verts u_steps v_steps bm
          = Inr (fold (\<lambda>i. fold (\<lambda>j. try_face faces_new (?q i j)) (py_range v_steps))
                      (py_range u_steps) bm)"
    unfolding klein_faces_def by (rule py_for_fold) (rule inner)
  also have "fold (\<lambda>i. fold (\<lambda>j. try_face faces_new (?q i j)) (py_range v_steps))
                  (py_range u_steps) bm
           = fold (try_face faces_new) (candidate_quads verts u_steps v_steps) bm"
    by (simp add: candidate_quads_def fold_concat_rows fold_map comp_def)
  finally show ?thesis .
qed

lemma length_candidate_quads:
  "length (candidate_quads verts u_steps v_steps) = nat u_steps * nat v_steps"
  by (simp add: candidate_quads_def length_concat comp_def length_py_range sum_list_triv)

lemma try_face_failed: "faces_new bm quad = Inl e \<Longrightarrow> try_face faces_new quad bm = bm"
  by (simp add: try_face_def)

lemma klein_vertex_grid_1_2:
  "klein_vertex_grid 1 2 bmesh_new =
     (\<lparr>bm_verts = [\<lparr>bmv_index = 0, bmv_co = klein_vertex 1 2 0 0\<rparr>,
                   \<lparr>bmv_index = 1, bmv_co = klein_vertex 1 2 0 1\<rparr>],
       bm_faces = []\<rparr>,
      [[\<lparr>bmv_index = 0, bmv_co = klein_vertex 1 2 0 0\<rparr>,
        \<lparr>bmv_index = 1, bmv_co = klein_vertex 1 2 0 1\<rparr>]])"
  by (simp add: klein_vertex_grid_def klein_vertex_row_def py_range_1 py_range_2
      bm_verts_new_def bmesh_new_def Let_def)

text \<open>
  C5. Whatever the host's face creation does, the face loop of
  \<open>create_klein_bottle_mesh\<close> never fails: it attempts every one of the
  \<open>u_steps * v_steps\<close> candidate quads in loop order, an attempt that raises is passed
  over and leaves the vertices and faces of the mesh as they were, and the loop goes on
  with the next quad.
\<close>

theorem klein_faces_failures_swallowed:
  "\<exists>bm verts.
     klein_vertex_grid u_steps v_steps bmesh_new = (bm, verts)
     \<and> create_klein_bottle_mesh faces_new u_steps v_steps
         = Inr (fold (try_face faces_new) (candidate_quads verts u_steps v_steps) bm)
     \<and> length (candidate_quads verts u_steps v_steps) = nat u_steps * nat v_steps
     \<and> (\<forall>m quad e. faces_new m quad = Inl e \<longrightarrow> try_face faces_new quad m = m)"
proof -
  obtain bm verts where g: "klein_vertex_grid u_steps v_steps bmesh_new = (bm, verts)"
    by (cases "klein_vertex_grid u_steps v_steps bmesh_new")
  have "klein_faces faces_new verts u_steps v_steps bm
          = Inr (fold (try_face faces_new) (candidate_quads verts u_steps v_steps) bm)"
    using klein_vertex_grid_shape(1,2) [OF g] by (intro klein_faces_fold) blast+
  then have "create_klein_bottle_mesh faces_new u_steps v_steps
          = Inr (fold (try_face faces_new) (candidate_quads verts u_steps v_steps) bm)"
    by (simp add: create_klein_bottle_mesh_def g)
  then show ?thesis
    using g length_candidate_quads try_face_failed by blast
qed

theorem klein_faces_failures_swallowed_witness:
  "\<exists>bm. create_klein_bottle_mesh bm_faces_new 1 2 = Inr bm
        \<and> bm_faces bm = [] \<and> length (bm_verts bm) = 2"
proof -
  obtain bm verts where
    g: "klein_vertex_grid 1 2 bmesh_new = (bm, verts)"
    and c: "create_klein_bottle_mesh bm_faces_new 1 2
              = Inr (fold (try_face bm_faces_new) (candidate_quads verts 1 2) bm)"
    using klein_faces_failures_swallowed [of 1 2 bm_faces_new] by blast
  have bm: "bm = \<lparr>bm_verts = [\<lparr>bmv_index = 0, bmv_co = klein_vertex 1 2 0 0\<rparr>,
                   \<lparr>bmv_index = 1, bmv_co = klein_vertex 1 2 0 1\<rparr>], bm_faces = []\<rparr>"
    and verts: "verts = [[\<lparr>bmv_index = 0, bmv_co = klein_vertex 1 2 0 0\<rparr>,
        \<lparr>bmv_index = 1, bmv_co = klein_vertex 1 2 0 1\<rparr>]]"
    using g by (simp_all add: klein_vertex_grid_1_2)
  have "fold (try_face bm_faces_new) (candidate_quads verts 1 2) bm = bm"
    unfolding verts
    by (simp add: candidate_quads_def quad_at_def py_range_1 py_range_2 try_face_def
        bm_faces_new_def)
  then show ?thesis using c bm by simp
qed

section \<open>The orbit animation\<close>

lemma animate_orbit_frame_keys:
  "location_keys (animate_orbit_frame d s frames f p)
     = (location_keys p)(f \<mapsto> Vector (cos (orbit_angle s frames f) * d)
                                       (sin (orbit_angle s frames f) * d) 0)"
  "rotation_z_keys (animate_orbit_frame d s frames f p)
     = (rotation_z_keys p)(f \<mapsto> orbit_angle s frames f)"
  by (simp_all add: animate_orbit_frame_def orbit_angle_def Let_def)

lemma animate_orbit_fold_keys:
  "location_keys (fold (animate_orbit_frame d s frames) fs p) f
     = (if f \<in> set fs
        then Some (Vector (cos (orbit_angle s frames f) * d) (sin (orbit_angle s frames f) * d) 0)
        else location_keys p f)"
  "rotation_z_keys (fold (animate_orbit_frame d s frames) fs p) f
     = (if f \<in> set fs then Some (orbit_angle s frames f) else rotation_z_keys p f)"
  by (induction fs arbitrary: p) (simp_all add: animate_orbit_frame_keys)

lemma circle_identity:
  fixes c s d :: real
  assumes "c * c + s * s = 1"
  shows "(c * d) * (c * d) + (s * d) * (s * d) = d * d"
proof -
  have "(c * d) * (c * d) + (s * d) * (s * d) = (c * c + s * s) * (d * d)"
    by (simp add: algebra_simps)
  then show ?thesis by (simp only: assms mult_1)
qed

text \<open>
  C6. For every orbit distance \<open>d\<close>, orbit speed \<open>s\<close> and frame \<open>f\<close> in \<open>1..frames\<close>,
  the location that \<open>animate_orbit\<close> keys at frame \<open>f\<close> has \<open>z = 0\<close> and
  \<open>x * x + y * y = d * d\<close>, the z rotation keyed at frame \<open>f\<close> is
  \<open>(f / frames) * s * 2 * pi\<close>, and the one keyed at the last frame is \<open>s * 2 * pi\<close>:
  \<open>s\<close> full turns from the angle 0 at which the planet is created.
\<close>

theorem animate_orbit_on_circle:
  assumes "1 \<le> f" and "f \<le> frames"
  shows "\<exists>x y. location_keys (animate_orbit planet d s frames) f = Some (Vector x y 0)
               \<and> x * x + y * y = d * d
               \<and> rotation_z_keys (animate_orbit planet d s frames) f
                   = Some ((real_of_int f / real_of_int frames) * s * 2 * pi)
               \<and> rotation_z_keys (animate_orbit planet d s frames) frames = Some (s * 2 * pi)"
proof -
  let ?a = "orbit_angle s frames f"
  have f: "f \<in> set [1..frames]" and l: "frames \<in> set [1..frames]"
    using assms by simp_all
  have loc: "location_keys (animate_orbit planet d s frames) f
               = Some (Vector (cos ?a * d) (sin ?a * d) 0)"
    using f by (simp add: animate_orbit_def animate_orbit_fold_keys)
  have circ: "(cos ?a * d) * (cos ?a * d) + (sin ?a * d) * (sin ?a * d) = d * d"
    by (rule circle_identity) (rule sin_cos_squared_add3)
  have rot: "rotation_z_keys (animate_orbit planet d s frames) f
               = Some ((real_of_int f / real_of_int frames) * s * 2 * pi)"
    using f by (simp add: animate_orbit_def animate_orbit_fold_keys orbit_angle_def)
  have "frames \<noteq> 0" using assms by simp
  then have last: "rotation_z_keys (animate_orbit planet d s frames) frames = Some (s * 2 * pi)"
    using l by (simp add: animate_orbit_def animate_orbit_fold_keys orbit_angle_def)
  show ?thesis using loc circ rot last by blast
qed

theorem animate_orbit_on_circle_witness:
  "(1::int) \<le> 75 \<and> (75::int) \<le> 300
   \<and> rotation_z_keys (animate_orbit (create_planet ''Mercury'' 0.3 6) 6 4 300) 75 = Some (2 * pi)
   \<and> rotation_z_keys (animate_orbit (create_planet ''Mercury'' 0.3 6) 6 4 300) 300 = Some (8 * pi)"
proof -
  have a: "(1::int) \<le> 75" and b: "(75::int) \<le> 300" by simp_all
  from animate_orbit_on_circle [OF a b, of "create_planet ''Mercury'' 0.3 6" 6 4]
  show ?thesis by auto
qed


section \<open>What the scripts do first\<close>

lemma events_fold_materials:
  "events (fold (\<lambda>mat h. h\<lparr>data_materials := remove1 mat (data_materials h)\<rparr>) ms h) = events h"
  by (induction ms arbitrary: h) simp_all

lemma events_materials_remove_all [simp]: "events (materials_remove_all h) = events h"
  by (simp add: materials_remove_all_def events_fold_materials)



















end
